theory Spec2Isabelle
  imports Main "HOL-Library.Word" "HOL-Library.Signed_Division"
begin

section \<open>Streaming parser for the Prometheus exposition format\<close>

text \<open>
  A shallow embedding of \<^verbatim>\<open>lib/protoparser/prometheus/streamparser.go\<close>:
  the driver loop \<^verbatim>\<open>ParseStream\<close>, the read step \<^verbatim>\<open>streamContext.Read\<close>,
  \<^verbatim>\<open>Error\<close>, \<^verbatim>\<open>reset\<close> and the two-tier pool of stream contexts.

  The file calls code that lives elsewhere: \<^verbatim>\<open>common.ReadLinesBlock\<close>,
  \<^verbatim>\<open>common.GetGzipReader\<close>, \<^verbatim>\<open>Rows.Unmarshal\<close>, \<^verbatim>\<open>Rows.Reset\<close>, the
  \<^verbatim>\<open>net.Conn\<close> method \<^verbatim>\<open>SetReadDeadline\<close> and the clock \<^verbatim>\<open>time.Now\<close>.
  The refill, the decoder, the decompressing reader, \<^verbatim>\<open>SetReadDeadline\<close> and the clock
  are parameters of the model (record \<open>env\<close> below), so that the theorems about
  \<open>Read\<close> and the loop hold for whatever these collaborators do. \<^verbatim>\<open>Rows.Reset\<close> and
  the type of the decompressing reader are taken from the spec, and so are the refill
  and the decoder where a theorem is about a whole stream.
\<close>

subsection \<open>Errors\<close>

text \<open>
  Go error values, as far as this file looks at them: the sentinel \<^verbatim>\<open>io.EOF\<close>
  (compared by identity), errors that implement \<^verbatim>\<open>net.Error\<close> (with the answer of
  their \<^verbatim>\<open>Timeout()\<close> method), any other leaf error, and an error wrapped by
  \<^verbatim>\<open>fmt.Errorf("<msg>: %w", e)\<close>.
\<close>

datatype error =
    EOF
  | NetError bool string
  | OtherError string
  | Wrapped string error

text \<open>
  \<^verbatim>\<open>errors.As(e, &ne)\<close> with \<^verbatim>\<open>ne\<close> of type \<^verbatim>\<open>net.Error\<close>: walks the chain of
  wrapped errors and stops at the first one that is a \<^verbatim>\<open>net.Error\<close>. The result is
  that error's \<^verbatim>\<open>Timeout()\<close>, or \<open>None\<close> when the chain holds no \<^verbatim>\<open>net.Error\<close>.
\<close>

fun errors_As_net :: "error \<Rightarrow> bool option" where
  "errors_As_net EOF = None"
| "errors_As_net (NetError t msg) = Some t"
| "errors_As_net (OtherError msg) = None"
| "errors_As_net (Wrapped msg e) = errors_As_net e"

text \<open>The condition of line 58: \<^verbatim>\<open>errors.As(ctx.err, &ne) && ne.Timeout()\<close>.\<close>

definition isTimeout :: "error \<Rightarrow> bool" where
  "isTimeout e = (case errors_As_net e of None \<Rightarrow> False | Some t \<Rightarrow> t)"

subsection \<open>Rows and the stream context\<close>

type_synonym bytes = string

text \<open>
  \<^verbatim>\<open>Row\<close> is declared in the parser; this file reads and writes its
  \<^verbatim>\<open>Timestamp\<close> (an \<^verbatim>\<open>int64\<close> of milliseconds, 0 meaning unset) only. The other
  fields are the payload \<open>Sample\<close>. No arithmetic here can leave the \<^verbatim>\<open>int64\<close>
  range (the only operation is a division), so the timestamp is an \<open>int\<close>.
\<close>

record 'p Row =
  Sample :: 'p
  Timestamp :: int

record 'p streamContext =
  Rows :: "'p Row list"
  reqBuf :: bytes
  tailBuf :: bytes
  err :: "error option"

subsection \<open>The world outside the context\<close>

text \<open>
  Modelled from the spec: the type of the reader that \<^verbatim>\<open>common.GetGzipReader\<close> returns
  is declared outside this file. The spec says that only network-like sources support
  deadlines; the decompressing reader is not one, so the type assertion of line 48 fails
  on it.

  \<open>reader\<close> is the dynamic type of the \<^verbatim>\<open>io.Reader\<close> handed to \<^verbatim>\<open>Read\<close>: a network
  connection (implements \<^verbatim>\<open>net.Conn\<close>), some other reader, or the decompressing
  reader around a reader.
\<close>

datatype reader = NetConn | OtherReader | GzipReader reader

fun is_net_Conn :: "reader \<Rightarrow> bool" where
  "is_net_Conn NetConn = True"
| "is_net_Conn OtherReader = False"
| "is_net_Conn (GzipReader r) = False"

text \<open>
  The mutable state the step touches besides the context: the three counters
  (\<^verbatim>\<open>metrics.Counter\<close>, an unsigned 64-bit integer), the number of clock readings
  taken so far, the deadlines passed to \<^verbatim>\<open>SetReadDeadline\<close> so far (oldest first),
  and the state \<open>src\<close> of the byte source behind the reader.
\<close>

record 'r world =
  readCalls :: "64 word"
  readErrors :: "64 word"
  rowsRead :: "64 word"
  ticks :: nat
  deadlineCalls :: "int list"
  src :: 'r

text \<open>
  The collaborators. \<open>timeNow n\<close> is what the \<open>n\<close>-th reading of the wall clock
  returns, in nanoseconds since the epoch (\<^verbatim>\<open>time.Now().UnixNano()\<close>).
  \<open>ReadLinesBlock\<close> returns the new source state, the new block, the new tail and the
  error; \<open>SetReadDeadline\<close> and \<open>GetGzipReader\<close> return the new source state and the
  error.
\<close>

record ('r, 'p) env =
  timeNow :: "nat \<Rightarrow> int"
  SetReadDeadline :: "'r \<Rightarrow> int \<Rightarrow> 'r \<times> error option"
  ReadLinesBlock :: "reader \<Rightarrow> 'r \<Rightarrow> bytes \<Rightarrow> bytes \<Rightarrow> 'r \<times> bytes \<times> bytes \<times> error option"
  Unmarshal :: "bytes \<Rightarrow> 'p Row list"
  GetGzipReader :: "'r \<Rightarrow> 'r \<times> error option"

definition time_Now :: "('r, 'p) env \<Rightarrow> 'r world \<Rightarrow> int \<times> 'r world" where
  "time_Now env w = (timeNow env (ticks w), w\<lparr>ticks := Suc (ticks w)\<rparr>)"

text \<open>\<^verbatim>\<open>const flushTimeout = 3 * time.Second\<close>, in nanoseconds.\<close>

definition flushTimeout :: int where
  "flushTimeout = 3 * 1000000000"

subsection \<open>The read step\<close>

text \<open>Lines 76 to 81: the loop that fills the missing timestamps.\<close>

definition fillTimestamps :: "int \<Rightarrow> 'p Row list \<Rightarrow> 'p Row list" where
  "fillTimestamps currentTimestamp rows =
     map (\<lambda>r. if Timestamp r = 0 then r\<lparr>Timestamp := currentTimestamp\<rparr> else r) rows"

text \<open>
  Lines 69 to 82 of \<^verbatim>\<open>Read\<close>: decode the block, count the rows, take the current
  time in milliseconds (Go's integer division truncates towards zero: \<open>sdiv\<close>) and fill
  the timestamps.
\<close>

definition Read_decode ::
  "('r, 'p) env \<Rightarrow> 'r world \<Rightarrow> 'p streamContext \<Rightarrow> bool \<times> 'r world \<times> 'p streamContext" where
  "Read_decode env w ctx =
     (let ctx = ctx\<lparr>Rows := Unmarshal env (reqBuf ctx)\<rparr>;
          w = w\<lparr>rowsRead := rowsRead w + of_nat (length (Rows ctx))\<rparr>;
          (now, w) = time_Now env w;
          currentTimestamp = now sdiv 1000000
      in (True, w, ctx\<lparr>Rows := fillTimestamps currentTimestamp (Rows ctx)\<rparr>))"

text \<open>Lines 55 to 68 of \<^verbatim>\<open>Read\<close>: refill the buffers and look at the error.\<close>

definition Read_refill ::
  "('r, 'p) env \<Rightarrow> reader \<Rightarrow> 'r world \<Rightarrow> 'p streamContext \<Rightarrow> bool \<times> 'r world \<times> 'p streamContext" where
  "Read_refill env r w ctx =
     (case ReadLinesBlock env r (src w) (reqBuf ctx) (tailBuf ctx) of
        (s, rb, tb, e) \<Rightarrow>
          let w = w\<lparr>src := s\<rparr>;
              ctx = ctx\<lparr>reqBuf := rb, tailBuf := tb, err := e\<rparr>
          in (case err ctx of
                None \<Rightarrow> Read_decode env w ctx
              | Some e \<Rightarrow>
                  if isTimeout e then Read_decode env w (ctx\<lparr>err := None\<rparr>)
                  else if e \<noteq> EOF then
                    (False, w\<lparr>readErrors := readErrors w + 1\<rparr>,
                     ctx\<lparr>err := Some (Wrapped ''cannot read graphite plaintext protocol data'' e)\<rparr>)
                  else (False, w, ctx)))"

text \<open>
  Lines 48 to 54 of \<^verbatim>\<open>Read\<close>, up to the call of \<^verbatim>\<open>SetReadDeadline\<close>: when
  the reader is a connection, the deadline is set \<^verbatim>\<open>flushTimeout\<close> after the
  current time. The result is the new world and the error of the call.
\<close>

definition Read_deadline :: "('r, 'p) env \<Rightarrow> reader \<Rightarrow> 'r world \<Rightarrow> 'r world \<times> error option" where
  "Read_deadline env r w =
     (if is_net_Conn r then
        (let (now, w) = time_Now env w;
             deadline = now + flushTimeout
         in case SetReadDeadline env (src w) deadline of
              (s, e) \<Rightarrow> (w\<lparr>src := s, deadlineCalls := deadlineCalls w @ [deadline]\<rparr>, e))
      else (w, None))"

text \<open>\<^verbatim>\<open>func (ctx *streamContext) Read(r io.Reader) bool\<close>, lines 43 to 83.\<close>

definition Read ::
  "('r, 'p) env \<Rightarrow> reader \<Rightarrow> 'r world \<Rightarrow> 'p streamContext \<Rightarrow> bool \<times> 'r world \<times> 'p streamContext" where
  "Read env r w ctx =
     (let w = w\<lparr>readCalls := readCalls w + 1\<rparr> in
      if err ctx \<noteq> None then (False, w, ctx)
      else (case Read_deadline env r w of
              (w, Some e) \<Rightarrow>
                (False, w\<lparr>readErrors := readErrors w + 1\<rparr>,
                 ctx\<lparr>err := Some (Wrapped ''cannot set read deadline'' e)\<rparr>)
            | (w, None) \<Rightarrow> Read_refill env r w ctx))"

text \<open>\<^verbatim>\<open>func (ctx *streamContext) Error() error\<close>, lines 92 to 97.\<close>

definition Error :: "'p streamContext \<Rightarrow> error option" where
  "Error ctx = (if err ctx = Some EOF then None else err ctx)"

text \<open>
  Modelled from the spec: \<^verbatim>\<open>Rows.Reset\<close> is defined with the parser, outside this
  file. The spec says that a reset context has empty rows.
\<close>

definition Rows_Reset :: "'p Row list \<Rightarrow> 'p Row list" where
  "Rows_Reset rows = []"

text \<open>
  \<^verbatim>\<open>func (ctx *streamContext) reset()\<close>, lines 99 to 104. \<^verbatim>\<open>buf[:0]\<close> keeps the
  capacity and has length 0.
\<close>

definition reset :: "'p streamContext \<Rightarrow> 'p streamContext" where
  "reset ctx =
     ctx\<lparr>Rows := Rows_Reset (Rows ctx), reqBuf := take 0 (reqBuf ctx),
         tailBuf := take 0 (tailBuf ctx), err := None\<rparr>"

subsection \<open>The pool of stream contexts\<close>

text \<open>
  \<^verbatim>\<open>streamContextPoolCh\<close> is a buffered channel (first in, first out) whose capacity
  \<^verbatim>\<open>runtime.GOMAXPROCS(-1)\<close> is fixed when the program starts;
  \<^verbatim>\<open>streamContextPool\<close> is a \<^verbatim>\<open>sync.Pool\<close>. The contexts are held by value:
  after \<^verbatim>\<open>putStreamContext\<close> the caller (\<^verbatim>\<open>ParseStream\<close>, in its last deferred
  call) does not touch the context again.
\<close>

record 'p pool =
  chCap :: nat
  poolCh :: "'p streamContext list"
  syncPool :: "'p streamContext list"

text \<open>
  \<^verbatim>\<open>sync.Pool.Get\<close> returns an arbitrary item of the pool, or nil even when the pool
  holds items. The choice is the argument \<open>pick\<close>: \<open>None\<close> for nil, \<open>Some i\<close> for
  the item at position \<open>i\<close> (nil when there is none).
\<close>

definition sync_Pool_Get :: "nat option \<Rightarrow> 'a list \<Rightarrow> 'a option \<times> 'a list" where
  "sync_Pool_Get pick xs =
     (case pick of
        None \<Rightarrow> (None, xs)
      | Some i \<Rightarrow> if i < length xs then (Some (xs ! i), take i xs @ drop (Suc i) xs) else (None, xs))"

text \<open>\<^verbatim>\<open>func getStreamContext() *streamContext\<close>, lines 112 to 122.\<close>

definition getStreamContext :: "nat option \<Rightarrow> 'p pool \<Rightarrow> 'p streamContext \<times> 'p pool" where
  "getStreamContext pick p =
     (case poolCh p of
        ctx # rest \<Rightarrow> (ctx, p\<lparr>poolCh := rest\<rparr>)
      | [] \<Rightarrow>
          (case sync_Pool_Get pick (syncPool p) of
             (Some v, rest) \<Rightarrow> (v, p\<lparr>syncPool := rest\<rparr>)
           | (None, rest) \<Rightarrow>
               (\<lparr>Rows = [], reqBuf = [], tailBuf = [], err = None\<rparr>, p\<lparr>syncPool := rest\<rparr>)))"

text \<open>\<^verbatim>\<open>func putStreamContext(ctx *streamContext)\<close>, lines 124 to 131.\<close>

definition putStreamContext :: "'p streamContext \<Rightarrow> 'p pool \<Rightarrow> 'p pool" where
  "putStreamContext ctx p =
     (let ctx = reset ctx in
      if length (poolCh p) < chCap p then p\<lparr>poolCh := poolCh p @ [ctx]\<rparr>
      else p\<lparr>syncPool := ctx # syncPool p\<rparr>)"

subsection \<open>The driver loop\<close>

text \<open>
  The callback is a Go closure: it has a state \<open>'c\<close> of its own, takes the rows and
  returns its new state and its error.

  Lines 33 to 38 of \<^verbatim>\<open>ParseStream\<close>. The loop runs for as long as \<^verbatim>\<open>Read\<close>
  returns true and the callback returns nil, which may be forever: \<open>None\<close> is the run
  that never returns. The result is the error returned, the callback's state, the
  world and the context when the loop is left.
\<close>

partial_function (option) readLoop ::
  "('r, 'p) env \<Rightarrow> ('c \<Rightarrow> 'p Row list \<Rightarrow> 'c \<times> error option) \<Rightarrow> reader \<Rightarrow> 'c \<Rightarrow> 'r world \<Rightarrow>
   'p streamContext \<Rightarrow> (error option \<times> 'c \<times> 'r world \<times> 'p streamContext) option" where
  "readLoop env callback r c w ctx =
     (case Read env r w ctx of
        (continue, w, ctx) \<Rightarrow>
          if continue then
            (case callback c (Rows ctx) of
               (c, Some e) \<Rightarrow> Some (Some e, c, w, ctx)
             | (c, None) \<Rightarrow> readLoop env callback r c w ctx)
          else Some (Error ctx, c, w, ctx))"

declare readLoop.simps [code]

text \<open>
  \<^verbatim>\<open>func ParseStream(r io.Reader, isGzipped bool, callback func(rows []Row) error) error\<close>,
  lines 22 to 39. The deferred \<^verbatim>\<open>putStreamContext(ctx)\<close> runs on every return after
  line 32; the deferred \<^verbatim>\<open>common.PutGzipReader(zr)\<close> gives the decompressing reader
  back to a pool of its own and touches nothing of this model.
\<close>

definition ParseStream ::
  "('r, 'p) env \<Rightarrow> ('c \<Rightarrow> 'p Row list \<Rightarrow> 'c \<times> error option) \<Rightarrow> nat option \<Rightarrow> reader \<Rightarrow> bool \<Rightarrow>
   'c \<Rightarrow> 'r world \<Rightarrow> 'p pool \<Rightarrow> (error option \<times> 'c \<times> 'r world \<times> 'p pool) option" where
  "ParseStream env callback pick r isGzipped c w p =
     (case (if isGzipped then
              (case GetGzipReader env (src w) of (s, e) \<Rightarrow> (GzipReader r, w\<lparr>src := s\<rparr>, e))
            else (r, w, None)) of
        (r, w, Some e) \<Rightarrow>
          Some (Some (Wrapped ''cannot read gzipped lines with Prometheus exposition format'' e),
                c, w, p)
      | (r, w, None) \<Rightarrow>
          (case getStreamContext pick p of
             (ctx, p) \<Rightarrow>
               (case readLoop env callback r c w ctx of
                  None \<Rightarrow> None
                | Some (res, c, w, ctx) \<Rightarrow> Some (res, c, w, putStreamContext ctx p))))"

subsection \<open>Observing a run\<close>

text \<open>
  A callback that keeps a record of its invocations: each entry is the row slice it
  received and the error it returned. The callback it wraps decides the error.
\<close>

definition recording ::
  "('c \<Rightarrow> 'p Row list \<Rightarrow> 'c \<times> error option) \<Rightarrow>
   ('p Row list \<times> error option) list \<times> 'c \<Rightarrow> 'p Row list \<Rightarrow>
   (('p Row list \<times> error option) list \<times> 'c) \<times> error option" where
  "recording callback lc rows =
     (case callback (snd lc) rows of (c, e) \<Rightarrow> ((fst lc @ [(rows, e)], c), e))"

text \<open>
  The first \<open>n\<close> turns of the loop of \<^verbatim>\<open>ParseStream\<close>, when each of them is a step
  that returns true followed by an invocation of the callback that returns nil: the
  callback's state, the world and the context after them. \<open>None\<close> when one of these
  turns stops the loop.
\<close>

fun quiet_turns ::
  "nat \<Rightarrow> ('r, 'p) env \<Rightarrow> ('c \<Rightarrow> 'p Row list \<Rightarrow> 'c \<times> error option) \<Rightarrow> reader \<Rightarrow> 'c \<Rightarrow> 'r world \<Rightarrow>
   'p streamContext \<Rightarrow> ('c \<times> 'r world \<times> 'p streamContext) option" where
  "quiet_turns 0 env callback r c w ctx = Some (c, w, ctx)"
| "quiet_turns (Suc n) env callback r c w ctx =
     (case Read env r w ctx of
        (continue, w, ctx) \<Rightarrow>
          if continue then
            (case callback c (Rows ctx) of
               (c, Some e) \<Rightarrow> None
             | (c, None) \<Rightarrow> quiet_turns n env callback r c w ctx)
          else None)"


text \<open>The state a fresh or reset context is in.\<close>

definition pristine :: "'p streamContext \<Rightarrow> bool" where
  "pristine ctx \<longleftrightarrow> Rows ctx = [] \<and> reqBuf ctx = [] \<and> tailBuf ctx = [] \<and> err ctx = None"

definition pool_pristine :: "'p pool \<Rightarrow> bool" where
  "pool_pristine p \<longleftrightarrow> list_all pristine (poolCh p) \<and> list_all pristine (syncPool p)"

text \<open>
  A history of pool calls: \<open>Put ctx\<close> is \<^verbatim>\<open>putStreamContext(ctx)\<close>, \<open>Get pick\<close> is
  \<^verbatim>\<open>getStreamContext()\<close> with the choice \<^verbatim>\<open>sync.Pool\<close> makes. \<open>run_pool\<close> returns
  the contexts handed out, in order, and the pool at the end.
\<close>

datatype 'p pool_op = Put "'p streamContext" | Get "nat option"

fun run_pool :: "'p pool_op list \<Rightarrow> 'p pool \<Rightarrow> 'p streamContext list \<times> 'p pool" where
  "run_pool [] p = ([], p)"
| "run_pool (Put ctx # ops) p = run_pool ops (putStreamContext ctx p)"
| "run_pool (Get pick # ops) p =
     (case getStreamContext pick p of
        (ctx, p) \<Rightarrow> (case run_pool ops p of (out, p) \<Rightarrow> (ctx # out, p)))"

text \<open>The condition under which \<^verbatim>\<open>Read\<close> goes on to decode: no error, or a timeout.\<close>

definition nonfatal :: "error option \<Rightarrow> bool" where
  "nonfatal e = (case e of None \<Rightarrow> True | Some x \<Rightarrow> isTimeout x)"

text \<open>
  An environment that plays back a script, for running the model on concrete inputs:
  the source is the list of the results \<^verbatim>\<open>ReadLinesBlock\<close> will return (block, tail,
  error), and the end of the script is the end of the stream. Setting a deadline and
  opening the decompressing reader succeed.
\<close>

definition scripted_env ::
  "(nat \<Rightarrow> int) \<Rightarrow> (bytes \<Rightarrow> 'p Row list) \<Rightarrow> ((bytes \<times> bytes \<times> error option) list, 'p) env" where
  "scripted_env clock decode =
     \<lparr>timeNow = clock,
      SetReadDeadline = (\<lambda>s t. (s, None)),
      ReadLinesBlock = (\<lambda>r s rb tb. case s of [] \<Rightarrow> ([], rb, tb, Some EOF)
                                      | (b, t, e) # rest \<Rightarrow> (rest, b, t, e)),
      Unmarshal = decode,
      GetGzipReader = (\<lambda>s. (s, None))\<rparr>"

text \<open>A world with all counters at 0 and no deadline set, around a source.\<close>

definition world0 :: "'r \<Rightarrow> 'r world" where
  "world0 s = \<lparr>readCalls = 0, readErrors = 0, rowsRead = 0, ticks = 0, deadlineCalls = [], src = s\<rparr>"

text \<open>The zero value \<^verbatim>\<open>&streamContext{}\<close> of line 120.\<close>

definition ctx0 :: "'p streamContext" where
  "ctx0 = \<lparr>Rows = [], reqBuf = [], tailBuf = [], err = None\<rparr>"

text \<open>A decoder for concrete runs: a block that is not empty is one row without a timestamp.\<close>

definition one_row :: "bytes \<Rightarrow> bytes Row list" where
  "one_row b = (if b = [] then [] else [\<lparr>Sample = b, Timestamp = 0\<rparr>])"

subsection \<open>A whole stream, with the collaborators taken from the spec\<close>

















section \<open>Properties of the read step\<close>

subsection \<open>The phases of a step\<close>

lemma Read_decode_result:
  "Read_decode env w ctx =
     (True,
      w\<lparr>rowsRead := rowsRead w + of_nat (length (Unmarshal env (reqBuf ctx))), ticks := Suc (ticks w)\<rparr>,
      ctx\<lparr>Rows := fillTimestamps (timeNow env (ticks w) sdiv 1000000) (Unmarshal env (reqBuf ctx))\<rparr>)"
  by (simp add: Read_decode_def time_Now_def)

lemma Read_refill_ok:
  assumes "ReadLinesBlock env r (src w) (reqBuf ctx) (tailBuf ctx) = (s, rb, tb, None)"
  shows "Read_refill env r w ctx =
           Read_decode env (w\<lparr>src := s\<rparr>) (ctx\<lparr>reqBuf := rb, tailBuf := tb, err := None\<rparr>)"
  using assms by (simp add: Read_refill_def)

lemma Read_refill_timeout:
  assumes "ReadLinesBlock env r (src w) (reqBuf ctx) (tailBuf ctx) = (s, rb, tb, Some e)"
    and "isTimeout e"
  shows "Read_refill env r w ctx =
           Read_decode env (w\<lparr>src := s\<rparr>) (ctx\<lparr>reqBuf := rb, tailBuf := tb, err := None\<rparr>)"
  using assms by (simp add: Read_refill_def)

lemma Read_refill_fatal:
  assumes "ReadLinesBlock env r (src w) (reqBuf ctx) (tailBuf ctx) = (s, rb, tb, Some e)"
    and "\<not> isTimeout e"
  shows "Read_refill env r w ctx =
           (False,
            w\<lparr>src := s, readErrors := (if e = EOF then readErrors w else readErrors w + 1)\<rparr>,
            ctx\<lparr>reqBuf := rb, tailBuf := tb,
                err := Some (if e = EOF then EOF
                             else Wrapped ''cannot read graphite plaintext protocol data'' e)\<rparr>)"
  using assms by (simp add: Read_refill_def)

lemma Read_stopped:
  "err ctx \<noteq> None \<Longrightarrow> Read env r w ctx = (False, w\<lparr>readCalls := readCalls w + 1\<rparr>, ctx)"
  by (simp add: Read_def)

lemma Read_running:
  assumes "err ctx = None"
    and "Read_deadline env r (w\<lparr>readCalls := readCalls w + 1\<rparr>) = (w1, None)"
  shows "Read env r w ctx = Read_refill env r w1 ctx"
  using assms by (simp add: Read_def)

lemma Read_deadline_failed:
  assumes "err ctx = None"
    and "Read_deadline env r (w\<lparr>readCalls := readCalls w + 1\<rparr>) = (w1, Some e)"
  shows "Read env r w ctx =
           (False, w1\<lparr>readErrors := readErrors w1 + 1\<rparr>,
            ctx\<lparr>err := Some (Wrapped ''cannot set read deadline'' e)\<rparr>)"
  using assms by (simp add: Read_def)


text \<open>One turn of the loop, after a step that returned true and after one that returned false.\<close>

lemma readLoop_step:
  assumes "Read env r w ctx = (True, w', ctx')"
  shows "readLoop env callback r c w ctx =
           (case callback c (Rows ctx') of
              (c', Some e) \<Rightarrow> Some (Some e, c', w', ctx')
            | (c', None) \<Rightarrow> readLoop env callback r c' w' ctx')"
  by (subst readLoop.simps) (simp add: assms)

lemma readLoop_stop:
  assumes "Read env r w ctx = (False, w', ctx')"
  shows "readLoop env callback r c w ctx = Some (Error ctx', c, w', ctx')"
  by (subst readLoop.simps) (simp add: assms)

text \<open>The whole step on the path that decodes.\<close>

lemma Read_nonfatal:
  assumes "err ctx = None"
    and "Read_deadline env r (w\<lparr>readCalls := readCalls w + 1\<rparr>) = (w1, None)"
    and "ReadLinesBlock env r (src w1) (reqBuf ctx) (tailBuf ctx) = (s, rb, tb, e)"
    and "nonfatal e"
  shows "Read env r w ctx =
           (True,
            w1\<lparr>src := s, rowsRead := rowsRead w1 + of_nat (length (Unmarshal env rb)),
               ticks := Suc (ticks w1)\<rparr>,
            \<lparr>Rows = fillTimestamps (timeNow env (ticks w1) sdiv 1000000) (Unmarshal env rb),
             reqBuf = rb, tailBuf = tb, err = None\<rparr>)"
proof (cases e)
  case None
  with assms show ?thesis
    by (simp add: Read_running Read_refill_ok Read_decode_result)
next
  case (Some x)
  with assms have "isTimeout x" by (simp add: nonfatal_def)
  with assms Some show ?thesis
    by (simp add: Read_running Read_refill_timeout Read_decode_result)
qed


lemma Read_deadline_rowsRead:
  assumes "Read_deadline env r w = (w1, e)"
  shows "rowsRead w1 = rowsRead w"
  using assms
  by (auto simp: Read_deadline_def time_Now_def Let_def split: if_splits prod.splits)


subsection \<open>Timeouts, fatal errors and the sticky error\<close>

text \<open>
  C1. When the refill returns an error that satisfies the timeout condition, the step
  clears the error, decodes the block that was read, fills the timestamps and returns
  true; the loop then hands the rows to the callback and, when the callback returns no
  error, reads again.
\<close>

theorem timeout_flushes_and_continues:
  assumes "err ctx = None"
    and "Read_deadline env r (w\<lparr>readCalls := readCalls w + 1\<rparr>) = (w1, None)"
    and "ReadLinesBlock env r (src w1) (reqBuf ctx) (tailBuf ctx) = (s, rb, tb, Some e)"
    and "isTimeout e"
  shows "let w' = w1\<lparr>src := s, rowsRead := rowsRead w1 + of_nat (length (Unmarshal env rb)),
                     ticks := Suc (ticks w1)\<rparr>;
             ctx' = \<lparr>Rows = fillTimestamps (timeNow env (ticks w1) sdiv 1000000) (Unmarshal env rb),
                     reqBuf = rb, tailBuf = tb, err = None\<rparr>
         in Read env r w ctx = (True, w', ctx') \<and>
            readLoop env callback r c w ctx =
              (case callback c (Rows ctx') of
                 (c', Some e') \<Rightarrow> Some (Some e', c', w', ctx')
               | (c', None) \<Rightarrow> readLoop env callback r c' w' ctx')"
proof -
  have "nonfatal (Some e)" using assms(4) by (simp add: nonfatal_def)
  from Read_nonfatal [OF assms(1) assms(2) assms(3) this]
  show ?thesis by (simp add: readLoop_step Let_def)
qed

theorem timeout_flushes_and_continues_witness:
  "let env = scripted_env (\<lambda>n. 1700000000123456789) one_row;
       w = world0 [(''up 1'', ''pro'', Some (Wrapped ''read tcp'' (NetError True ''i/o timeout''))),
                   (''process_up 1'', [], None)]
   in isTimeout (Wrapped ''read tcp'' (NetError True ''i/o timeout'')) \<and>
      Read env NetConn w ctx0 =
        (True,
         \<lparr>readCalls = 1, readErrors = 0, rowsRead = 1, ticks = 2,
          deadlineCalls = [1700000003123456789], src = [(''process_up 1'', [], None)]\<rparr>,
         \<lparr>Rows = [\<lparr>Sample = ''up 1'', Timestamp = 1700000000123\<rparr>],
          reqBuf = ''up 1'', tailBuf = ''pro'', err = None\<rparr>)"
  using timeout_flushes_and_continues
    [of ctx0 "scripted_env (\<lambda>n. 1700000000123456789) one_row" NetConn
        "world0 [(''up 1'', ''pro'', Some (Wrapped ''read tcp'' (NetError True ''i/o timeout''))),
                 (''process_up 1'', [], None)]"
        "\<lparr>readCalls = 1, readErrors = 0, rowsRead = 0, ticks = 1,
          deadlineCalls = [1700000003123456789],
          src = [(''up 1'', ''pro'', Some (Wrapped ''read tcp'' (NetError True ''i/o timeout''))),
                 (''process_up 1'', [], None)]\<rparr>"
        "[(''process_up 1'', [], None)]" "''up 1''" "''pro''"
        "Wrapped ''read tcp'' (NetError True ''i/o timeout'')" "\<lambda>c rows. (c, None)" "()"]
  by (simp add: scripted_env_def world0_def ctx0_def one_row_def Read_deadline_def time_Now_def
      flushTimeout_def isTimeout_def fillTimestamps_def signed_divide_int_def Let_def)

lemma Read_continue_iff:
  "fst (Read env r w ctx) \<longleftrightarrow> err (snd (snd (Read env r w ctx))) = None"
proof (cases "err ctx = None")
  case False
  then show ?thesis by (auto simp: Read_stopped)
next
  case True
  obtain w1 de where d: "Read_deadline env r (w\<lparr>readCalls := readCalls w + 1\<rparr>) = (w1, de)"
    by (cases "Read_deadline env r (w\<lparr>readCalls := readCalls w + 1\<rparr>)")
  show ?thesis
  proof (cases de)
    case (Some e)
    with True d show ?thesis by (simp add: Read_deadline_failed)
  next
    case None
    obtain s rb tb e where
      rl: "ReadLinesBlock env r (src w1) (reqBuf ctx) (tailBuf ctx) = (s, rb, tb, e)"
      by (cases "ReadLinesBlock env r (src w1) (reqBuf ctx) (tailBuf ctx)")
    show ?thesis
    proof (cases "nonfatal e")
      case True
      from Read_nonfatal [OF \<open>err ctx = None\<close> d [unfolded None] rl True]
      show ?thesis by simp
    next
      case False
      then obtain x where "e = Some x" "\<not> isTimeout x"
        by (cases e) (auto simp: nonfatal_def)
      with True d None rl show ?thesis
        by (simp add: Read_running Read_refill_fatal)
    qed
  qed
qed

text \<open>
  C6. The error of a context is sticky: a step on a context whose error is set returns
  false at once and changes neither the context nor the source (it counts the call and
  does nothing else), so the error stays as it is; a step returns true exactly when the
  error is nil afterwards, so the error only goes from nil to a terminal value; and
  \<open>reset\<close> is what clears it.
\<close>

theorem err_is_sticky:
  "(err ctx \<noteq> None \<longrightarrow> Read env r w ctx = (False, w\<lparr>readCalls := readCalls w + 1\<rparr>, ctx)) \<and>
   (err ctx \<noteq> None \<longrightarrow>
      readLoop env callback r c w ctx =
        Some (Error ctx, c, w\<lparr>readCalls := readCalls w + 1\<rparr>, ctx)) \<and>
   (fst (Read env r w ctx) \<longleftrightarrow> err (snd (snd (Read env r w ctx))) = None) \<and>
   err (reset ctx) = None"
  by (simp add: Read_stopped readLoop_stop Read_continue_iff reset_def)

theorem err_is_sticky_witness:
  "let env = scripted_env (\<lambda>n. 1700000000123456789) one_row;
       w = world0 [(''up 1'', [], None)];
       ctx = \<lparr>Rows = [], reqBuf = ''go_threads 7'', tailBuf = ''go_'', err = Some EOF\<rparr>
   in err ctx \<noteq> None \<and>
      Read env NetConn w ctx =
        (False,
         \<lparr>readCalls = 1, readErrors = 0, rowsRead = 0, ticks = 0, deadlineCalls = [],
          src = [(''up 1'', [], None)]\<rparr>,
         ctx)"
  using err_is_sticky
    [of "\<lparr>Rows = [], reqBuf = ''go_threads 7'', tailBuf = ''go_'', err = Some EOF\<rparr>"
        "scripted_env (\<lambda>n. 1700000000123456789) one_row" NetConn
        "world0 [(''up 1'', [], None)]" "\<lambda>c rows. (c, None)" "()"]
  by (simp add: world0_def Let_def)

text \<open>
  C8. When the refill returns an error that is not a timeout, the step returns false
  and does not decode: the rows, the row counter and the clock are as they were. The
  end of the stream is recorded as it is and \<open>Error\<close> reports it as no error; any other
  error is recorded wrapped and \<open>Error\<close> reports it. The loop ends with what \<open>Error\<close>
  reports.
\<close>

theorem fatal_refill_stops:
  assumes "err ctx = None"
    and "Read_deadline env r (w\<lparr>readCalls := readCalls w + 1\<rparr>) = (w1, None)"
    and "ReadLinesBlock env r (src w1) (reqBuf ctx) (tailBuf ctx) = (s, rb, tb, Some e)"
    and "\<not> isTimeout e"
  shows "let w' = w1\<lparr>src := s, readErrors := (if e = EOF then readErrors w1 else readErrors w1 + 1)\<rparr>;
             ctx' = ctx\<lparr>reqBuf := rb, tailBuf := tb,
                        err := Some (if e = EOF then EOF
                                     else Wrapped ''cannot read graphite plaintext protocol data'' e)\<rparr>
         in Read env r w ctx = (False, w', ctx') \<and>
            Rows ctx' = Rows ctx \<and> rowsRead w' = rowsRead w \<and> ticks w' = ticks w1 \<and>
            (e = EOF \<longrightarrow> Error ctx' = None) \<and>
            (e \<noteq> EOF \<longrightarrow>
               Error ctx' = Some (Wrapped ''cannot read graphite plaintext protocol data'' e)) \<and>
            readLoop env callback r c w ctx = Some (Error ctx', c, w', ctx')"
proof -
  have "Read env r w ctx = Read_refill env r w1 ctx"
    using assms(1,2) by (rule Read_running)
  also note Read_refill_fatal [OF assms(3,4)]
  finally have step: "Read env r w ctx =
      (False,
       w1\<lparr>src := s, readErrors := (if e = EOF then readErrors w1 else readErrors w1 + 1)\<rparr>,
       ctx\<lparr>reqBuf := rb, tailBuf := tb,
           err := Some (if e = EOF then EOF
                        else Wrapped ''cannot read graphite plaintext protocol data'' e)\<rparr>)" .
  have "rowsRead w1 = rowsRead w"
    using Read_deadline_rowsRead [OF assms(2)] by simp
  with step show ?thesis
    by (simp add: Let_def Error_def readLoop_stop)
qed

theorem fatal_refill_stops_witness:
  "let env = scripted_env (\<lambda>n. 1700000000123456789) one_row;
       w = world0 [(''up 1'', [], Some (OtherError ''connection reset by peer''))];
       ctx = \<lparr>Rows = [\<lparr>Sample = ''old'', Timestamp = 5\<rparr>], reqBuf = [], tailBuf = [], err = None\<rparr>
   in \<not> isTimeout (OtherError ''connection reset by peer'') \<and>
      Read env OtherReader w ctx =
        (False,
         \<lparr>readCalls = 1, readErrors = 1, rowsRead = 0, ticks = 0, deadlineCalls = [], src = []\<rparr>,
         \<lparr>Rows = [\<lparr>Sample = ''old'', Timestamp = 5\<rparr>], reqBuf = ''up 1'', tailBuf = [],
          err = Some (Wrapped ''cannot read graphite plaintext protocol data''
                        (OtherError ''connection reset by peer''))\<rparr>)"
  using fatal_refill_stops
    [of "\<lparr>Rows = [\<lparr>Sample = ''old'', Timestamp = 5\<rparr>], reqBuf = [], tailBuf = [], err = None\<rparr>"
        "scripted_env (\<lambda>n. 1700000000123456789) one_row" OtherReader
        "world0 [(''up 1'', [], Some (OtherError ''connection reset by peer''))]"
        "\<lparr>readCalls = 1, readErrors = 0, rowsRead = 0, ticks = 0, deadlineCalls = [],
          src = [(''up 1'', [], Some (OtherError ''connection reset by peer''))]\<rparr>"
        "[]" "''up 1''" "[]" "OtherError ''connection reset by peer''" "\<lambda>c rows. (c, None)" "()"]
  by (simp add: scripted_env_def world0_def Read_deadline_def isTimeout_def Let_def)

subsection \<open>Timestamps and empty batches\<close>




text \<open>
  C9. A step whose refill succeeds or times out returns true whatever the number of rows
  decoded. When no row was decoded, the loop still calls the callback, with the empty
  slice, and goes on or ends as the callback says.
\<close>

theorem empty_batch_is_delivered:
  assumes "err ctx = None"
    and "Read_deadline env r (w\<lparr>readCalls := readCalls w + 1\<rparr>) = (w1, None)"
    and "ReadLinesBlock env r (src w1) (reqBuf ctx) (tailBuf ctx) = (s, rb, tb, e)"
    and "nonfatal e"
  shows "\<exists>w' ctx'. Read env r w ctx = (True, w', ctx') \<and>
           (Unmarshal env rb = [] \<longrightarrow>
              Rows ctx' = [] \<and>
              readLoop env callback r c w ctx =
                (case callback c [] of
                   (c', Some e') \<Rightarrow> Some (Some e', c', w', ctx')
                 | (c', None) \<Rightarrow> readLoop env callback r c' w' ctx'))"
proof -
  note step = Read_nonfatal [OF assms]
  show ?thesis
    using readLoop_step [OF step, of callback c] step
    by (auto simp: fillTimestamps_def)
qed

theorem empty_batch_is_delivered_witness:
  "let env = scripted_env (\<lambda>n. 1700000000123456789) one_row;
       w = world0 [([], ''up'', Some (NetError True ''i/o timeout''))]
   in nonfatal (Some (NetError True ''i/o timeout'')) \<and> Unmarshal env [] = [] \<and>
      (\<exists>w' ctx'. Read env OtherReader w ctx0 = (True, w', ctx') \<and> Rows ctx' = [] \<and>
         readLoop env (recording (\<lambda>c rows. (c, None))) OtherReader ([], ()) w ctx0 =
         readLoop env (recording (\<lambda>c rows. (c, None))) OtherReader ([([], None)], ()) w' ctx')"
  using empty_batch_is_delivered
    [of ctx0 "scripted_env (\<lambda>n. 1700000000123456789) one_row" OtherReader
        "world0 [([], ''up'', Some (NetError True ''i/o timeout''))]"
        "\<lparr>readCalls = 1, readErrors = 0, rowsRead = 0, ticks = 0, deadlineCalls = [],
          src = [([], ''up'', Some (NetError True ''i/o timeout''))]\<rparr>"
        "[]" "[]" "''up''" "Some (NetError True ''i/o timeout'')"
        "recording (\<lambda>c rows. (c, None))" "([], ())"]
  by (auto simp: scripted_env_def world0_def ctx0_def Read_deadline_def
      nonfatal_def isTimeout_def one_row_def recording_def Let_def)

section \<open>Properties of the driver loop\<close>

subsection \<open>How a run ends\<close>

lemma Read_deadline_readCalls:
  assumes "Read_deadline env r w = (w1, e)"
  shows "readCalls w1 = readCalls w"
  using assms
  by (auto simp: Read_deadline_def time_Now_def Let_def split: if_splits prod.splits)

lemma Read_counts_one:
  assumes "Read env r w ctx = (b, w', ctx')"
  shows "readCalls w' = readCalls w + 1"
proof (cases "err ctx = None")
  case False
  with assms show ?thesis by (auto simp: Read_stopped)
next
  case True
  obtain w1 de where d: "Read_deadline env r (w\<lparr>readCalls := readCalls w + 1\<rparr>) = (w1, de)"
    by (cases "Read_deadline env r (w\<lparr>readCalls := readCalls w + 1\<rparr>)")
  then have w1: "readCalls w1 = readCalls w + 1"
    by (simp add: Read_deadline_readCalls)
  show ?thesis
  proof (cases de)
    case (Some e)
    with True d assms w1 show ?thesis by (auto simp: Read_deadline_failed)
  next
    case None
    obtain s rb tb e where
      rl: "ReadLinesBlock env r (src w1) (reqBuf ctx) (tailBuf ctx) = (s, rb, tb, e)"
      by (cases "ReadLinesBlock env r (src w1) (reqBuf ctx) (tailBuf ctx)")
    show ?thesis
    proof (cases "nonfatal e")
      case True
      from Read_nonfatal [OF \<open>err ctx = None\<close> d [unfolded None] rl True] assms w1
      show ?thesis by auto
    next
      case False
      then obtain x where "e = Some x" "\<not> isTimeout x"
        by (cases e) (auto simp: nonfatal_def)
      with True d None rl assms w1 show ?thesis
        by (auto simp: Read_running Read_refill_fatal)
    qed
  qed
qed

lemma Read_true_err:
  assumes "Read env r w ctx = (True, w', ctx')"
  shows "err ctx' = None"
  using Read_continue_iff [of env r w ctx] assms by simp

lemma Read_false_err:
  assumes "Read env r w ctx = (False, w', ctx')"
  shows "err ctx' \<noteq> None"
  using Read_continue_iff [of env r w ctx] assms by simp

text \<open>How a run of the loop that returns has ended: by a step that returned false, or by
  an error of the callback right after a step that returned true.\<close>

lemma readLoop_end:
  fixes env :: "('r, 'p) env" and c :: 'c
  assumes "readLoop env callback r c w ctx = Some (res, c', w', ctx')"
  shows "(err ctx' \<noteq> None \<and> res = Error ctx') \<or>
         (err ctx' = None \<and> res \<noteq> None \<and>
          (\<exists>w0 ctx0 c0. Read env r w0 ctx0 = (True, w', ctx') \<and>
                         callback c0 (Rows ctx') = (c', res)))"
proof -
  let ?P = "\<lambda>env callback r (c :: 'c) (w :: 'r world) (ctx :: 'p streamContext) y.
      case y of (res, c', w', ctx') \<Rightarrow>
        (err ctx' \<noteq> None \<and> res = Error ctx') \<or>
        (err ctx' = None \<and> res \<noteq> None \<and>
         (\<exists>w0 ctx0 c0. Read env r w0 ctx0 = (True, w', ctx') \<and>
                        callback c0 (Rows ctx') = (c', res)))"
  have "?P env callback r c w ctx (res, c', w', ctx')"
  proof (rule readLoop.raw_induct [where P = ?P, OF _ assms])
    fix f env callback r and c :: 'c and w :: "'r world" and ctx :: "'p streamContext" and y
    assume IH: "\<And>env callback r c w ctx y. f env callback r c w ctx = Some y \<Longrightarrow>
                  ?P env callback r c w ctx y"
      and eq: "(case Read env r w ctx of
                  (continue, w, ctx) \<Rightarrow>
                    if continue then
                      (case callback c (Rows ctx) of
                         (c, Some e) \<Rightarrow> Some (Some e, c, w, ctx)
                       | (c, None) \<Rightarrow> f env callback r c w ctx)
                    else Some (Error ctx, c, w, ctx)) = Some y"
    obtain b w1 ctx1 where rd: "Read env r w ctx = (b, w1, ctx1)"
      by (cases "Read env r w ctx")
    show "?P env callback r c w ctx y"
    proof (cases b)
      case False
      with rd eq have "y = (Error ctx1, c, w1, ctx1)" by simp
      moreover have "err ctx1 \<noteq> None" using rd False by (simp add: Read_false_err)
      ultimately show ?thesis by simp
    next
      case True
      obtain c1 e where cb: "callback c (Rows ctx1) = (c1, e)"
        by (cases "callback c (Rows ctx1)")
      have nil: "err ctx1 = None" using rd True by (simp add: Read_true_err)
      show ?thesis
      proof (cases e)
        case None
        with rd True cb eq have "f env callback r c1 w1 ctx1 = Some y" by simp
        then show ?thesis by (rule IH)
      next
        case (Some x)
        with rd True cb eq have "y = (Some x, c1, w1, ctx1)" by simp
        with nil rd True cb Some show ?thesis by auto
      qed
    qed
  qed
  then show ?thesis by simp
qed
text \<open>The same for a recording callback, with the entries the run has added to the record
  and the number of steps counted by \<open>readCalls\<close>.\<close>

lemma readLoop_recording:
  fixes env :: "('r, 'p) env" and c :: 'c
  assumes "readLoop env (recording callback) r (log, c) w ctx = Some (res, (log', c'), w', ctx')"
  shows "\<exists>entries. log' = log @ entries \<and>
           (\<forall>i. Suc i < length entries \<longrightarrow> snd (entries ! i) = None) \<and>
           ((entries \<noteq> [] \<and> snd (last entries) = res \<and> res \<noteq> None \<and>
             fst (last entries) = Rows ctx' \<and>
             (\<exists>w0 ctx0. Read env r w0 ctx0 = (True, w', ctx')) \<and>
             readCalls w' = readCalls w + of_nat (length entries)) \<or>
            ((\<forall>x \<in> set entries. snd x = None) \<and> res = Error ctx' \<and>
             readCalls w' = readCalls w + of_nat (length entries) + 1))"
proof -
  let ?Q = "\<lambda>(env :: ('r, 'p) env) r (log :: ('p Row list \<times> error option) list)
              (w :: 'r world) res log' (w' :: 'r world) (ctx' :: 'p streamContext) entries.
      log' = log @ entries \<and>
      (\<forall>i. Suc i < length entries \<longrightarrow> snd (entries ! i) = None) \<and>
      ((entries \<noteq> [] \<and> snd (last entries) = res \<and> res \<noteq> None \<and>
        fst (last entries) = Rows ctx' \<and>
        (\<exists>w0 ctx0. Read env r w0 ctx0 = (True, w', ctx')) \<and>
        readCalls w' = readCalls w + of_nat (length entries)) \<or>
       ((\<forall>x \<in> set entries. snd x = None) \<and> res = Error ctx' \<and>
        readCalls w' = readCalls w + of_nat (length entries) + 1))"
  let ?P = "\<lambda>(env :: ('r, 'p) env) cb r (lc :: ('p Row list \<times> error option) list \<times> 'c)
              (w :: 'r world) (ctx :: 'p streamContext) y.
      cb = recording callback \<longrightarrow>
      (case y of (res, lc', w', ctx') \<Rightarrow> \<exists>entries. ?Q env r (fst lc) w res (fst lc') w' ctx' entries)"
  have "?P env (recording callback) r (log, c) w ctx (res, (log', c'), w', ctx')"
  proof (rule readLoop.raw_induct [where P = ?P, OF _ assms])
    fix f and env :: "('r, 'p) env" and cb r
      and lc :: "('p Row list \<times> error option) list \<times> 'c"
      and w :: "'r world" and ctx :: "'p streamContext" and y
    assume IH: "\<And>env cb r lc w ctx y. f env cb r lc w ctx = Some y \<Longrightarrow> ?P env cb r lc w ctx y"
      and eq: "(case Read env r w ctx of
                  (continue, w, ctx) \<Rightarrow>
                    if continue then
                      (case cb lc (Rows ctx) of
                         (c, Some e) \<Rightarrow> Some (Some e, c, w, ctx)
                       | (c, None) \<Rightarrow> f env cb r c w ctx)
                    else Some (Error ctx, lc, w, ctx)) = Some y"
    obtain b w1 ctx1 where rd: "Read env r w ctx = (b, w1, ctx1)"
      by (cases "Read env r w ctx")
    have cnt: "readCalls w1 = readCalls w + 1"
      using rd by (rule Read_counts_one)
    show "?P env cb r lc w ctx y"
    proof
      assume cb: "cb = recording callback"
      show "case y of (res, lc', w', ctx') \<Rightarrow> \<exists>entries. ?Q env r (fst lc) w res (fst lc') w' ctx' entries"
      proof (cases b)
        case False
        with rd eq have y: "y = (Error ctx1, lc, w1, ctx1)" by simp
        have "?Q env r (fst lc) w (Error ctx1) (fst lc) w1 ctx1 []"
          using cnt by simp
        with y show ?thesis by auto
      next
        case True
        obtain c1 e where inner: "callback (snd lc) (Rows ctx1) = (c1, e)"
          by (cases "callback (snd lc) (Rows ctx1)")
        then have rec: "cb lc (Rows ctx1) = ((fst lc @ [(Rows ctx1, e)], c1), e)"
          by (simp add: cb recording_def)
        show ?thesis
        proof (cases e)
          case (Some x)
          with rd True rec eq
          have y: "y = (Some x, (fst lc @ [(Rows ctx1, Some x)], c1), w1, ctx1)" by simp
          have "?Q env r (fst lc) w (Some x) (fst lc @ [(Rows ctx1, Some x)]) w1 ctx1 [(Rows ctx1, Some x)]"
            using cnt rd True by auto
          with y show ?thesis by auto
        next
          case None
          with rd True rec eq
          have "f env cb r (fst lc @ [(Rows ctx1, None)], c1) w1 ctx1 = Some y" by simp
          note ih = IH [OF this]
          obtain res2 lg2 c2 w2 ctx2 where y: "y = (res2, (lg2, c2), w2, ctx2)"
            by (cases y) auto
          have "\<exists>entries. ?Q env r (fst lc @ [(Rows ctx1, None)]) w1 res2 lg2 w2 ctx2 entries"
            using ih cb y by simp
          then obtain entries where
            q: "?Q env r (fst lc @ [(Rows ctx1, None)]) w1 res2 lg2 w2 ctx2 entries" ..
          let ?es = "(Rows ctx1, None) # entries"
          have nth: "\<forall>i. Suc i < length ?es \<longrightarrow> snd (?es ! i) = None"
          proof (intro allI impI)
            fix i assume "Suc i < length ?es"
            then show "snd (?es ! i) = None"
              using q by (cases i) auto
          qed
          have "?Q env r (fst lc) w res2 lg2 w2 ctx2 ?es"
            using q cnt nth by (auto simp: algebra_simps)
          with y show ?thesis by (auto simp del: length_Cons)
        qed
      qed
    qed
  qed
  then show ?thesis by simp
qed

text \<open>What \<open>ParseStream\<close> returns is what its loop returns, unless the decompressing
  reader cannot be opened.\<close>

lemma ParseStream_cases:
  assumes "ParseStream env callback pick r isGzipped c w p = Some (res, c', w', p')"
  shows "(\<exists>e. isGzipped \<and> snd (GetGzipReader env (src w)) = Some e \<and> c' = c \<and> p' = p \<and>
              res = Some (Wrapped ''cannot read gzipped lines with Prometheus exposition format'' e)) \<or>
         (\<exists>ctx'. readLoop env callback (if isGzipped then GzipReader r else r) c
                   (if isGzipped then w\<lparr>src := fst (GetGzipReader env (src w))\<rparr> else w)
                   (fst (getStreamContext pick p)) = Some (res, c', w', ctx') \<and>
                 p' = putStreamContext ctx' (snd (getStreamContext pick p)))"
  using assms
  by (auto simp: ParseStream_def split: if_splits prod.splits option.splits)

subsection \<open>Runs told turn by turn\<close>

lemma quiet_turns_readLoop:
  assumes "quiet_turns n env callback r c w ctx = Some (c1, w1, ctx1)"
  shows "readLoop env callback r c w ctx = readLoop env callback r c1 w1 ctx1"
  using assms
proof (induction n arbitrary: c w ctx)
  case 0
  then show ?case by simp
next
  case (Suc n)
  obtain b w2 ctx2 where rd: "Read env r w ctx = (b, w2, ctx2)"
    by (cases "Read env r w ctx")
  obtain c2 e where cb: "callback c (Rows ctx2) = (c2, e)"
    by (cases "callback c (Rows ctx2)")
  from Suc.prems rd cb have b: "b" and e: "e = None"
    and rest: "quiet_turns n env callback r c2 w2 ctx2 = Some (c1, w1, ctx1)"
    by (auto split: if_splits option.splits)
  have "readLoop env callback r c w ctx = readLoop env callback r c2 w2 ctx2"
    using readLoop_step [of env r w ctx w2 ctx2 callback c] rd b cb e by simp
  with Suc.IH [OF rest] show ?case by simp
qed

lemma quiet_turns_readCalls:
  assumes "quiet_turns n env callback r c w ctx = Some (c1, w1, ctx1)"
  shows "readCalls w1 = readCalls w + of_nat n"
  using assms
proof (induction n arbitrary: c w ctx)
  case 0
  then show ?case by simp
next
  case (Suc n)
  obtain b w2 ctx2 where rd: "Read env r w ctx = (b, w2, ctx2)"
    by (cases "Read env r w ctx")
  obtain c2 e where cb: "callback c (Rows ctx2) = (c2, e)"
    by (cases "callback c (Rows ctx2)")
  from Suc.prems rd cb have
    rest: "quiet_turns n env callback r c2 w2 ctx2 = Some (c1, w1, ctx1)"
    by (auto split: if_splits option.splits)
  from Suc.IH [OF rest] Read_counts_one [OF rd] show ?case by simp
qed

text \<open>Every run of the loop that returns is a number of quiet turns and a last turn, which
  is a step that returns false or an invocation of the callback that returns an error.\<close>

lemma readLoop_turns:
  fixes env :: "('r, 'p) env" and c :: 'c
  assumes "readLoop env callback r c w ctx = Some (res, c', w', ctx')"
  shows "\<exists>n c1 w1 ctx1. quiet_turns n env callback r c w ctx = Some (c1, w1, ctx1) \<and>
           ((Read env r w1 ctx1 = (False, w', ctx') \<and> c' = c1 \<and> res = Error ctx') \<or>
            (Read env r w1 ctx1 = (True, w', ctx') \<and> callback c1 (Rows ctx') = (c', res) \<and>
             res \<noteq> None))"
proof -
  let ?P = "\<lambda>(env :: ('r, 'p) env) callback r (c :: 'c) (w :: 'r world) (ctx :: 'p streamContext) y.
      case y of (res, c', w', ctx') \<Rightarrow>
        \<exists>n c1 w1 ctx1. quiet_turns n env callback r c w ctx = Some (c1, w1, ctx1) \<and>
          ((Read env r w1 ctx1 = (False, w', ctx') \<and> c' = c1 \<and> res = Error ctx') \<or>
           (Read env r w1 ctx1 = (True, w', ctx') \<and> callback c1 (Rows ctx') = (c', res) \<and>
            res \<noteq> None))"
  have "?P env callback r c w ctx (res, c', w', ctx')"
  proof (rule readLoop.raw_induct [where P = ?P, OF _ assms])
    fix f and env :: "('r, 'p) env" and callback r and c :: 'c and w :: "'r world"
      and ctx :: "'p streamContext" and y
    assume IH: "\<And>env callback r c w ctx y. f env callback r c w ctx = Some y \<Longrightarrow>
                  ?P env callback r c w ctx y"
      and eq: "(case Read env r w ctx of
                  (continue, w, ctx) \<Rightarrow>
                    if continue then
                      (case callback c (Rows ctx) of
                         (c, Some e) \<Rightarrow> Some (Some e, c, w, ctx)
                       | (c, None) \<Rightarrow> f env callback r c w ctx)
                    else Some (Error ctx, c, w, ctx)) = Some y"
    obtain b w2 ctx2 where rd: "Read env r w ctx = (b, w2, ctx2)"
      by (cases "Read env r w ctx")
    obtain c2 e where cb: "callback c (Rows ctx2) = (c2, e)"
      by (cases "callback c (Rows ctx2)")
    obtain res' c' w' ctx' where y: "y = (res', c', w', ctx')"
      by (cases y) auto
    have zero: "quiet_turns 0 env callback r c w ctx = Some (c, w, ctx)" by simp
    show "?P env callback r c w ctx y"
    proof (cases b)
      case False
      with rd eq y have "res' = Error ctx2" "c' = c" "w' = w2" "ctx' = ctx2" by auto
      with rd False zero y show ?thesis by (simp del: quiet_turns.simps) blast
    next
      case True
      show ?thesis
      proof (cases e)
        case (Some x)
        with rd True cb eq y have "res' = Some x" "c' = c2" "w' = w2" "ctx' = ctx2" by auto
        with rd True cb Some zero y show ?thesis by (simp del: quiet_turns.simps) blast
      next
        case None
        with rd True cb eq have "f env callback r c2 w2 ctx2 = Some y" by simp
        from IH [OF this] y obtain n c1 w1 ctx1 where
          q: "quiet_turns n env callback r c2 w2 ctx2 = Some (c1, w1, ctx1)"
          and last: "(Read env r w1 ctx1 = (False, w', ctx') \<and> c' = c1 \<and> res' = Error ctx') \<or>
                     (Read env r w1 ctx1 = (True, w', ctx') \<and> callback c1 (Rows ctx') = (c', res') \<and>
                      res' \<noteq> None)"
          by auto
        have "quiet_turns (Suc n) env callback r c w ctx = Some (c1, w1, ctx1)"
          using rd True cb None q by simp
        with last y show ?thesis by (simp del: quiet_turns.simps) blast
      qed
    qed
  qed
  then show ?thesis by simp
qed

text \<open>What \<open>ParseStream\<close> returns when the decompressing reader, if asked for, can be opened.\<close>

lemma ParseStream_loop:
  assumes "isGzipped \<longrightarrow> snd (GetGzipReader env (src w)) = None"
    and "getStreamContext pick p = (ctx, p1)"
    and "readLoop env callback (if isGzipped then GzipReader r else r) c
           (if isGzipped then w\<lparr>src := fst (GetGzipReader env (src w))\<rparr> else w) ctx =
         Some (res, c', w', ctx')"
  shows "ParseStream env callback pick r isGzipped c w p =
           Some (res, c', w', putStreamContext ctx' p1)"
  using assms
  by (cases "GetGzipReader env (src w)") (auto simp: ParseStream_def)

text \<open>
  C3. A run in which the callback returns nil on each of its \<open>n\<close> invocations, and whose
  next step returns false, is a run of \<open>ParseStream\<close> that returns: the context then
  holds a terminal error, \<open>ParseStream\<close> returns what \<open>Error\<close> makes of it, and that is
  nil exactly when the terminal error is the end of the stream. (By \<open>readLoop_turns\<close>
  every run that returns without an error of the callback is of this form.)
\<close>

theorem ParseStream_nil_iff_EOF:
  assumes "isGzipped \<longrightarrow> snd (GetGzipReader env (src w)) = None"
    and "getStreamContext pick p = (ctx, p1)"
    and "quiet_turns n env callback (if isGzipped then GzipReader r else r) c
           (if isGzipped then w\<lparr>src := fst (GetGzipReader env (src w))\<rparr> else w) ctx =
         Some (c1, w1, ctx1)"
    and "Read env (if isGzipped then GzipReader r else r) w1 ctx1 = (False, w', ctx')"
  shows "ParseStream env callback pick r isGzipped c w p =
           Some (Error ctx', c1, w', putStreamContext ctx' p1) \<and>
         err ctx' \<noteq> None \<and>
         (Error ctx' = None \<longleftrightarrow> err ctx' = Some EOF)"
proof -
  have "readLoop env callback (if isGzipped then GzipReader r else r) c
          (if isGzipped then w\<lparr>src := fst (GetGzipReader env (src w))\<rparr> else w) ctx =
        Some (Error ctx', c1, w', ctx')"
    using quiet_turns_readLoop [OF assms(3)] readLoop_stop [OF assms(4), of callback c1] by simp
  from ParseStream_loop [OF assms(1,2) this]
  have "ParseStream env callback pick r isGzipped c w p =
          Some (Error ctx', c1, w', putStreamContext ctx' p1)" .
  moreover have set: "err ctx' \<noteq> None"
    using assms(4) by (rule Read_false_err)
  moreover have "Error ctx' = None \<longleftrightarrow> err ctx' = Some EOF"
    using set by (auto simp: Error_def)
  ultimately show ?thesis by simp
qed

theorem ParseStream_nil_iff_EOF_witness:
  "let env = scripted_env (\<lambda>n. 1700000000123456789) one_row;
       cb = (\<lambda>c rows. (Suc c, if c = 1 then Some (OtherError ''storage is read-only'') else None));
       w = world0 [(''metric1 1'', [], None)];
       p = \<lparr>chCap = 4, poolCh = [], syncPool = []\<rparr>;
       w1 = \<lparr>readCalls = 1, readErrors = 0, rowsRead = 1, ticks = 1, deadlineCalls = [], src = []\<rparr>;
       ctx1 = \<lparr>Rows = [\<lparr>Sample = ''metric1 1'', Timestamp = 1700000000123\<rparr>],
               reqBuf = ''metric1 1'', tailBuf = [], err = None\<rparr>
   in getStreamContext None p = (ctx0, p) \<and>
      quiet_turns (Suc 0) env cb OtherReader 0 w ctx0 = Some (1, w1, ctx1) \<and>
      Read env OtherReader w1 ctx1 =
        (False, w1\<lparr>readCalls := 2\<rparr>, ctx1\<lparr>err := Some EOF\<rparr>) \<and>
      ParseStream env cb None OtherReader False 0 w p =
        Some (None, 1, w1\<lparr>readCalls := 2\<rparr>, \<lparr>chCap = 4, poolCh = [ctx0], syncPool = []\<rparr>)"
proof -
  let ?env = "scripted_env (\<lambda>n. 1700000000123456789) one_row :: ((bytes \<times> bytes \<times> error option) list, bytes) env"
  let ?cb = "\<lambda>(c :: nat) (rows :: bytes Row list).
               (Suc c, if c = 1 then Some (OtherError ''storage is read-only'') else None)"
  let ?w = "world0 [(''metric1 1'', [], None :: error option)]"
  let ?p = "\<lparr>chCap = 4, poolCh = [], syncPool = []\<rparr> :: bytes pool"
  let ?w1 = "\<lparr>readCalls = 1, readErrors = 0, rowsRead = 1, ticks = 1, deadlineCalls = [],
              src = [] :: (bytes \<times> bytes \<times> error option) list\<rparr>"
  let ?ctx1 = "\<lparr>Rows = [\<lparr>Sample = ''metric1 1'', Timestamp = 1700000000123\<rparr>],
                reqBuf = ''metric1 1'', tailBuf = [], err = None\<rparr>"
  have gz: "False \<longrightarrow> snd (GetGzipReader ?env (src ?w)) = None" by simp
  have get: "getStreamContext None ?p = (ctx0, ?p)"
    by (simp add: getStreamContext_def sync_Pool_Get_def ctx0_def)
  have turns: "quiet_turns (Suc 0) ?env ?cb (if False then GzipReader OtherReader else OtherReader) 0
      (if False then ?w\<lparr>src := fst (GetGzipReader ?env (src ?w))\<rparr> else ?w) ctx0 = Some (1, ?w1, ?ctx1)"
    by (simp add: ctx0_def Read_def Read_deadline_def Read_refill_def Read_decode_def time_Now_def
        scripted_env_def world0_def one_row_def fillTimestamps_def signed_divide_int_def Let_def)
  have stop: "Read ?env (if False then GzipReader OtherReader else OtherReader) ?w1 ?ctx1 =
      (False, ?w1\<lparr>readCalls := 2\<rparr>, ?ctx1\<lparr>err := Some EOF\<rparr>)"
    by (simp add: Read_def Read_deadline_def Read_refill_def scripted_env_def isTimeout_def Let_def)
  from ParseStream_nil_iff_EOF [OF gz get turns stop]
  have "ParseStream ?env ?cb None OtherReader False 0 ?w ?p =
      Some (None, 1, ?w1\<lparr>readCalls := 2\<rparr>, \<lparr>chCap = 4, poolCh = [ctx0], syncPool = []\<rparr>)"
    by (simp add: Error_def putStreamContext_def reset_def Rows_Reset_def ctx0_def)
  with get turns stop show ?thesis by (simp only: Let_def if_False)
qed

text \<open>
  C4. A run in which the callback returns nil on its first \<open>n\<close> invocations and an error
  on the next one is a run of \<open>ParseStream\<close> that returns that very error (not wrapped):
  the world and the context at the end are the ones that the step before the failing
  invocation produced, and \<open>readCalls\<close> has counted \<open>n + 1\<close> steps, as many as there were
  invocations.
\<close>

theorem callback_error_is_returned:
  assumes "isGzipped \<longrightarrow> snd (GetGzipReader env (src w)) = None"
    and "getStreamContext pick p = (ctx, p1)"
    and "quiet_turns n env callback (if isGzipped then GzipReader r else r) c
           (if isGzipped then w\<lparr>src := fst (GetGzipReader env (src w))\<rparr> else w) ctx =
         Some (c1, w1, ctx1)"
    and "Read env (if isGzipped then GzipReader r else r) w1 ctx1 = (True, w2, ctx2)"
    and "callback c1 (Rows ctx2) = (c2, Some e)"
  shows "ParseStream env callback pick r isGzipped c w p =
           Some (Some e, c2, w2, putStreamContext ctx2 p1) \<and>
         readCalls w2 = readCalls w + of_nat (Suc n)"
proof -
  have "readLoop env callback (if isGzipped then GzipReader r else r) c
          (if isGzipped then w\<lparr>src := fst (GetGzipReader env (src w))\<rparr> else w) ctx =
        Some (Some e, c2, w2, ctx2)"
    using quiet_turns_readLoop [OF assms(3)] readLoop_step [OF assms(4), of callback c1] assms(5)
    by simp
  from ParseStream_loop [OF assms(1,2) this]
  have "ParseStream env callback pick r isGzipped c w p =
          Some (Some e, c2, w2, putStreamContext ctx2 p1)" .
  moreover have "readCalls w2 = readCalls w + of_nat (Suc n)"
    using quiet_turns_readCalls [OF assms(3)] Read_counts_one [OF assms(4)]
    by (simp split: if_splits)
  ultimately show ?thesis by simp
qed

theorem callback_error_is_returned_witness:
  "let env = scripted_env (\<lambda>n. 1700000000123456789) one_row;
       cb = (\<lambda>c rows. (Suc c, if c = 1 then Some (OtherError ''storage is read-only'') else None));
       w = world0 [(''a 1'', [], None), (''b 2'', [], None), (''c 3'', [], None)];
       p = \<lparr>chCap = 4, poolCh = [], syncPool = []\<rparr>;
       w1 = \<lparr>readCalls = 1, readErrors = 0, rowsRead = 1, ticks = 1, deadlineCalls = [],
             src = [(''b 2'', [], None), (''c 3'', [], None)]\<rparr>;
       ctx1 = \<lparr>Rows = [\<lparr>Sample = ''a 1'', Timestamp = 1700000000123\<rparr>],
               reqBuf = ''a 1'', tailBuf = [], err = None\<rparr>;
       w2 = \<lparr>readCalls = 2, readErrors = 0, rowsRead = 2, ticks = 2, deadlineCalls = [],
             src = [(''c 3'', [], None)]\<rparr>;
       ctx2 = \<lparr>Rows = [\<lparr>Sample = ''b 2'', Timestamp = 1700000000123\<rparr>],
               reqBuf = ''b 2'', tailBuf = [], err = None\<rparr>
   in getStreamContext None p = (ctx0, p) \<and>
      quiet_turns (Suc 0) env cb OtherReader 0 w ctx0 = Some (1, w1, ctx1) \<and>
      Read env OtherReader w1 ctx1 = (True, w2, ctx2) \<and>
      cb 1 (Rows ctx2) = (2, Some (OtherError ''storage is read-only'')) \<and>
      ParseStream env cb None OtherReader False 0 w p =
        Some (Some (OtherError ''storage is read-only''), 2, w2,
              \<lparr>chCap = 4, poolCh = [ctx0], syncPool = []\<rparr>)"
proof -
  let ?env = "scripted_env (\<lambda>n. 1700000000123456789) one_row :: ((bytes \<times> bytes \<times> error option) list, bytes) env"
  let ?cb = "\<lambda>(c :: nat) (rows :: bytes Row list).
               (Suc c, if c = 1 then Some (OtherError ''storage is read-only'') else None)"
  let ?w = "world0 [(''a 1'', [], None :: error option), (''b 2'', [], None), (''c 3'', [], None)]"
  let ?p = "\<lparr>chCap = 4, poolCh = [], syncPool = []\<rparr> :: bytes pool"
  let ?w1 = "\<lparr>readCalls = 1, readErrors = 0, rowsRead = 1, ticks = 1, deadlineCalls = [],
              src = [(''b 2'', [], None :: error option), (''c 3'', [], None)]\<rparr>"
  let ?ctx1 = "\<lparr>Rows = [\<lparr>Sample = ''a 1'', Timestamp = 1700000000123\<rparr>],
                reqBuf = ''a 1'', tailBuf = [], err = None\<rparr>"
  let ?w2 = "\<lparr>readCalls = 2, readErrors = 0, rowsRead = 2, ticks = 2, deadlineCalls = [],
              src = [(''c 3'', [], None :: error option)]\<rparr>"
  let ?ctx2 = "\<lparr>Rows = [\<lparr>Sample = ''b 2'', Timestamp = 1700000000123\<rparr>],
                reqBuf = ''b 2'', tailBuf = [], err = None\<rparr>"
  have gz: "False \<longrightarrow> snd (GetGzipReader ?env (src ?w)) = None" by simp
  have get: "getStreamContext None ?p = (ctx0, ?p)"
    by (simp add: getStreamContext_def sync_Pool_Get_def ctx0_def)
  have turns: "quiet_turns (Suc 0) ?env ?cb (if False then GzipReader OtherReader else OtherReader) 0
      (if False then ?w\<lparr>src := fst (GetGzipReader ?env (src ?w))\<rparr> else ?w) ctx0 = Some (1, ?w1, ?ctx1)"
    by (simp add: ctx0_def Read_def Read_deadline_def Read_refill_def Read_decode_def time_Now_def
        scripted_env_def world0_def one_row_def fillTimestamps_def signed_divide_int_def Let_def)
  have step: "Read ?env (if False then GzipReader OtherReader else OtherReader) ?w1 ?ctx1 =
      (True, ?w2, ?ctx2)"
    by (simp add: Read_def Read_deadline_def Read_refill_def Read_decode_def time_Now_def
        scripted_env_def one_row_def fillTimestamps_def signed_divide_int_def Let_def)
  have fails: "?cb 1 (Rows ?ctx2) = (2, Some (OtherError ''storage is read-only''))" by simp
  from callback_error_is_returned [OF gz get turns step fails]
  have "ParseStream ?env ?cb None OtherReader False 0 ?w ?p =
      Some (Some (OtherError ''storage is read-only''), 2, ?w2,
            \<lparr>chCap = 4, poolCh = [ctx0], syncPool = []\<rparr>)"
    by (simp add: putStreamContext_def reset_def Rows_Reset_def ctx0_def)
  with get turns step fails show ?thesis by (simp only: Let_def if_False)
qed

subsection \<open>Deadlines\<close>






section \<open>Properties of the pool\<close>

lemma pristine_reset: "pristine (reset ctx)"
  by (simp add: pristine_def reset_def Rows_Reset_def)

lemma pristine_ctx0: "pristine ctx0"
  by (simp add: pristine_def ctx0_def)

lemma putStreamContext_pristine:
  assumes "pool_pristine p"
  shows "pool_pristine (putStreamContext ctx p)"
  using assms pristine_reset [of ctx]
  by (simp add: pool_pristine_def putStreamContext_def Let_def)

lemma sync_Pool_Get_pristine:
  assumes "list_all pristine xs" and "sync_Pool_Get pick xs = (v, rest)"
  shows "list_all pristine rest \<and> (\<forall>x. v = Some x \<longrightarrow> pristine x)"
proof (cases pick)
  case None
  with assms show ?thesis by (simp add: sync_Pool_Get_def)
next
  case (Some i)
  show ?thesis
  proof (cases "i < length xs")
    case False
    with Some assms show ?thesis by (simp add: sync_Pool_Get_def)
  next
    case True
    with Some assms(2) have v: "v = Some (xs ! i)" and rest: "rest = take i xs @ drop (Suc i) xs"
      by (simp_all add: sync_Pool_Get_def)
    have "pristine (xs ! i)"
      using assms(1) True by (simp add: list_all_length)
    moreover have "list_all pristine rest"
      using assms(1) unfolding rest list_all_iff
      by (auto dest: in_set_takeD in_set_dropD)
    ultimately show ?thesis using v by simp
  qed
qed

lemma getStreamContext_pristine:
  assumes "pool_pristine p"
  shows "pristine (fst (getStreamContext pick p)) \<and> pool_pristine (snd (getStreamContext pick p))"
proof (cases "poolCh p")
  case (Cons ctx rest)
  with assms show ?thesis
    by (simp add: getStreamContext_def pool_pristine_def)
next
  case Nil
  obtain v rest where g: "sync_Pool_Get pick (syncPool p) = (v, rest)"
    by (cases "sync_Pool_Get pick (syncPool p)")
  from assms have "list_all pristine (syncPool p)" by (simp add: pool_pristine_def)
  from sync_Pool_Get_pristine [OF this g]
  have rest: "list_all pristine rest" and v: "\<forall>x. v = Some x \<longrightarrow> pristine x" by simp_all
  show ?thesis
  proof (cases v)
    case None
    with Nil g rest show ?thesis
      by (simp add: getStreamContext_def pool_pristine_def pristine_def)
  next
    case (Some x)
    with Nil g rest v show ?thesis
      by (simp add: getStreamContext_def pool_pristine_def)
  qed
qed

lemma run_pool_pristine:
  assumes "pool_pristine p"
  shows "list_all pristine (fst (run_pool ops p)) \<and> pool_pristine (snd (run_pool ops p))"
  using assms
proof (induction ops arbitrary: p)
  case Nil
  then show ?case by simp
next
  case (Cons op ops)
  show ?case
  proof (cases op)
    case (Put ctx)
    with Cons.IH [OF putStreamContext_pristine [OF Cons.prems, of ctx]] show ?thesis by simp
  next
    case (Get pick)
    from getStreamContext_pristine [OF Cons.prems, of pick]
    have h: "pristine (fst (getStreamContext pick p))"
      and t: "pool_pristine (snd (getStreamContext pick p))" by simp_all
    from Cons.IH [OF t] h Get show ?thesis
      by (simp add: split_beta)
  qed
qed

text \<open>
  C7. From a pool whose contexts are all pristine (as the empty pool the program starts
  with), putting any context, whatever its state, and getting one gives a pristine
  context; so does every get in any later history of puts and gets, whichever item
  \<^verbatim>\<open>sync.Pool\<close> chooses; and \<open>ParseStream\<close>, the only user of the pool, leaves all the
  pooled contexts pristine.
\<close>

theorem pool_hands_out_pristine:
  assumes "pool_pristine p"
  shows "pristine (fst (getStreamContext pick (putStreamContext ctx p))) \<and>
         (\<forall>x \<in> set (fst (run_pool (Put ctx # ops) p)). pristine x) \<and>
         pool_pristine (snd (run_pool (Put ctx # ops) p)) \<and>
         (ParseStream env callback pick r isGzipped c w p = Some (res, c', w', p') \<longrightarrow>
            pool_pristine p')"
proof -
  have put: "pool_pristine (putStreamContext ctx p)"
    using assms by (rule putStreamContext_pristine)
  have "pool_pristine p'"
    if ps: "ParseStream env callback pick r isGzipped c w p = Some (res, c', w', p')"
  proof -
    from ParseStream_cases [OF ps]
    consider "p' = p"
      | ctx' where "p' = putStreamContext ctx' (snd (getStreamContext pick p))"
      by blast
    then show ?thesis
      using assms getStreamContext_pristine [OF assms, of pick]
      by cases (simp_all add: putStreamContext_pristine)
  qed
  then show ?thesis
    using getStreamContext_pristine [OF put, of pick] run_pool_pristine [OF put, of ops]
    by (simp add: list_all_iff)
qed

theorem pool_hands_out_pristine_witness:
  "let p = \<lparr>chCap = 1, poolCh = [], syncPool = []\<rparr>;
       dirty = \<lparr>Rows = [\<lparr>Sample = ''up 1'', Timestamp = 7\<rparr>], reqBuf = ''up 1'', tailBuf = ''pro'',
                err = Some (Wrapped ''cannot read graphite plaintext protocol data''
                              (OtherError ''connection reset by peer''))\<rparr>
   in pool_pristine p \<and>
      run_pool [Put dirty, Put dirty, Get None, Get (Some 0), Get (Some 0)] p =
        ([ctx0, ctx0, ctx0], p) \<and>
      (\<forall>x \<in> set (fst (run_pool [Put dirty, Put dirty, Get None, Get (Some 0), Get (Some 0)] p)).
         pristine x)"
proof -
  let ?p = "\<lparr>chCap = 1, poolCh = [], syncPool = []\<rparr> :: bytes pool"
  let ?dirty = "\<lparr>Rows = [\<lparr>Sample = ''up 1'', Timestamp = 7\<rparr>], reqBuf = ''up 1'', tailBuf = ''pro'',
                err = Some (Wrapped ''cannot read graphite plaintext protocol data''
                              (OtherError ''connection reset by peer''))\<rparr>"
  have start: "pool_pristine ?p" by (simp add: pool_pristine_def)
  have run: "run_pool [Put ?dirty, Put ?dirty, Get None, Get (Some 0), Get (Some 0)] ?p =
      ([ctx0, ctx0, ctx0], ?p)"
    by (simp add: putStreamContext_def getStreamContext_def sync_Pool_Get_def reset_def
        Rows_Reset_def ctx0_def Let_def)
  note inst = pool_hands_out_pristine
    [OF start, of _ ?dirty "[Put ?dirty, Get None, Get (Some 0), Get (Some 0)]"]
  have "\<forall>x \<in> set (fst (run_pool [Put ?dirty, Put ?dirty, Get None, Get (Some 0), Get (Some 0)] ?p)).
          pristine x"
    by (rule inst [THEN conjunct2, THEN conjunct1])
  with start run show ?thesis by (simp only: Let_def)
qed

section \<open>A whole stream against decoding the input at once\<close>

subsection \<open>Lines and blocks\<close>















subsection \<open>The run over the pieces of a stream\<close>







subsection \<open>The refinement\<close>




end
